theory Spec2Isabelle
  imports Main
begin

section \<open>Position slicer of vscode-flowr: data model\<close>

text \<open>
  The model follows the position-slicer module (the second document of
  \<^verbatim>\<open>src/src/extension.ts\<close>) and the session registry of the extension entry
  point (\<^verbatim>\<open>src/unnamed/part_000\<close> and the first document of
  \<^verbatim>\<open>src/src/extension.ts\<close>).

  Offsets are JavaScript numbers that only ever hold integers here; they are modelled
  as \<open>int\<close>, so that the value \<open>-1\<close> the code uses as a marker is representable.
\<close>

text \<open>
  \<^verbatim>\<open>vscode.TextDocumentContentChangeEvent\<close>: the fields \<^verbatim>\<open>shiftOffset\<close> reads.
  The field \<^verbatim>\<open>text\<close> is called \<open>cc_text\<close>, since \<open>text\<close> is a keyword.
\<close>

record ContentChange =
  rangeOffset :: int
  rangeLength :: int
  cc_text :: string

subsection \<open>shiftOffset\<close>

text \<open>
  \<^verbatim>\<open>function shiftOffset(offset, cc): number | undefined\<close>. The result
  \<^verbatim>\<open>undefined\<close> is \<open>None\<close>.
\<close>

definition shiftOffset :: "int \<Rightarrow> ContentChange \<Rightarrow> int option" where
  "shiftOffset offset cc =
     (if rangeOffset cc > offset then Some offset
      else if rangeLength cc + rangeOffset cc > offset then None
      else (let offsetDelta = int (length (cc_text cc)) - rangeLength cc;
                offset1 = offset + offsetDelta
            in Some offset1))"


subsection \<open>The editor host\<close>

text \<open>
  A \<^verbatim>\<open>vscode.TextDocument\<close> object is compared by reference in the source
  (\<^verbatim>\<open>e.document !== this.doc\<close>) and used as a key of \<^verbatim>\<open>docSlicers\<close>;
  it is modelled by an identifier. A \<^verbatim>\<open>vscode.Position\<close> is a pair of line and
  character, a \<^verbatim>\<open>vscode.Range\<close> a pair of start and end position.
\<close>

type_synonym DocId = nat
type_synonym EditorId = nat
type_synonym Position = "nat \<times> nat"
type_synonym Range = "Position \<times> Position"
type_synonym SliceElement = "nat \<times> Range"
type_synonym Uri = "string \<times> string"

text \<open>
  What the module calls but does not define is a parameter of the model: the methods
  \<^verbatim>\<open>positionAt\<close>, \<^verbatim>\<open>offsetAt\<close> and \<^verbatim>\<open>uri.path\<close> of a document, the
  token lookup \<^verbatim>\<open>getPositionAt(pos, doc)\<close> imported from \<^verbatim>\<open>./flowr/utils\<close>,
  the list \<^verbatim>\<open>vscode.window.visibleTextEditors\<close> (each editor with its document),
  and the answer of \<^verbatim>\<open>session.retrieveSlice(positions, doc)\<close>, a pair of
  \<^verbatim>\<open>code\<close> and \<^verbatim>\<open>sliceElements\<close>.
\<close>

record Host =
  positionAt :: "DocId \<Rightarrow> int \<Rightarrow> Position"
  offsetAt :: "DocId \<Rightarrow> Position \<Rightarrow> int"
  uriPath :: "DocId \<Rightarrow> string"
  getPositionAt :: "Position \<Rightarrow> DocId \<Rightarrow> Range option"
  visibleTextEditors :: "(EditorId \<times> DocId) list"
  retrieveSlice :: "Position list \<Rightarrow> DocId \<Rightarrow> string \<times> SliceElement list"

text \<open>
  The calls into the presentation layer and the backend are recorded as a trace of
  effects, oldest first.
\<close>

datatype Effect =
    SetDecorations EditorId "Range list"
  | DisplaySlice EditorId "SliceElement list"
  | RetrieveSlice "Position list" DocId
  | UpdateContents Uri "string option"
  | DisposeSliceDecos
  | DisposePositionDeco
  | ClearSelectionSliceDecos DocId

text \<open>\<^verbatim>\<open>vscode.TextDocumentChangeEvent\<close>.\<close>

record TextDocumentChangeEvent =
  document :: DocId
  contentChanges :: "ContentChange list"

subsection \<open>class PositionSlicer\<close>

text \<open>
  The value of \<^verbatim>\<open>makeSliceDecorationTypes()\<close>; the model only needs to know
  whether \<^verbatim>\<open>this.sliceDecos\<close> holds one.
\<close>

datatype DecoTypes = DecoTypes

record PositionSlicer =
  doc :: DocId
  offsets :: "int list"
  sliceDecos :: "DecoTypes option"

definition new_PositionSlicer :: "DocId \<Rightarrow> PositionSlicer" where
  "new_PositionSlicer d = \<lparr>doc = d, offsets = [], sliceDecos = None\<rparr>"

definition positionSlicerAuthority :: string where
  "positionSlicerAuthority = ''doc-slicer''"

definition positionSlicerSuffix :: string where
  "positionSlicerSuffix = ''Slice''"

text \<open>
  \<^verbatim>\<open>normalizeOffset(offsetOrPos: number | vscode.Position)\<close>: a number is first
  converted with \<^verbatim>\<open>positionAt\<close>; the result is \<open>-1\<close> when the token lookup
  finds nothing.
\<close>

definition normalizeOffset :: "Host \<Rightarrow> PositionSlicer \<Rightarrow> int + Position \<Rightarrow> int" where
  "normalizeOffset h s offsetOrPos =
     (let pos = (case offsetOrPos of Inl n \<Rightarrow> positionAt h (doc s) n | Inr p \<Rightarrow> p)
      in case getPositionAt h pos (doc s) of
           None \<Rightarrow> - 1
         | Some rng \<Rightarrow> offsetAt h (doc s) (fst rng))"

text \<open>\<^verbatim>\<open>Array.prototype.indexOf\<close>: the first index of the element, or \<open>-1\<close>.\<close>

fun indexOf :: "int list \<Rightarrow> int \<Rightarrow> int" where
  "indexOf [] x = - 1"
| "indexOf (y # ys) x =
     (if y = x then 0 else (let i = indexOf ys x in if i < 0 then - 1 else i + 1))"

text \<open>
  The loop of \<^verbatim>\<open>togglePositions\<close> over the normalized offsets; the state is
  \<^verbatim>\<open>this.offsets\<close> and the flag \<^verbatim>\<open>onlyRemove\<close>.
\<close>

fun toggle_loop :: "int list \<Rightarrow> int list \<times> bool \<Rightarrow> int list \<times> bool" where
  "toggle_loop [] st = st"
| "toggle_loop (offset # rest) (tracked, onlyRemove) =
     (let idx = indexOf tracked offset
      in if idx < 0 then toggle_loop rest (tracked @ [offset], False)
         else toggle_loop rest (tracked, onlyRemove))"

definition togglePositions ::
  "Host \<Rightarrow> PositionSlicer \<Rightarrow> Position list \<Rightarrow> PositionSlicer \<times> bool" where
  "togglePositions h s positions =
     (let offsets0 = map (\<lambda>pos. normalizeOffset h s (Inr pos)) positions;
          offsets1 = filter (\<lambda>i. i \<ge> 0) offsets0
      in if length offsets1 = 0 then (s, False)
         else (let (tracked, onlyRemove) = toggle_loop offsets1 (offsets s, True);
                   tracked1 = (if onlyRemove
                               then filter (\<lambda>offset. offset \<notin> set offsets1) tracked
                               else tracked)
               in (s\<lparr>offsets := tracked1\<rparr>, True)))"

text \<open>
  The offsets \<^verbatim>\<open>togglePositions\<close> works with: its local \<^verbatim>\<open>offsets\<close> after
  the \<^verbatim>\<open>map\<close> and the \<^verbatim>\<open>filter\<close>.
\<close>

definition normalized :: "Host \<Rightarrow> PositionSlicer \<Rightarrow> Position list \<Rightarrow> int list" where
  "normalized h s positions =
     filter (\<lambda>i. i \<ge> 0) (map (\<lambda>pos. normalizeOffset h s (Inr pos)) positions)"

text \<open>
  The inner loop of \<^verbatim>\<open>onDocChange\<close> over \<^verbatim>\<open>e.contentChanges\<close>, for one
  tracked offset; the result is the value of \<^verbatim>\<open>offset\<close> when the loop is left.
  The test \<^verbatim>\<open>if(!offset1)\<close> holds for \<^verbatim>\<open>undefined\<close> and also for the number
  \<open>0\<close>.
\<close>

fun shift_loop :: "int \<Rightarrow> ContentChange list \<Rightarrow> int" where
  "shift_loop offset [] = offset"
| "shift_loop offset (cc # ccs) =
     (case shiftOffset offset cc of
        None \<Rightarrow> - 1
      | Some offset1 \<Rightarrow> if offset1 = 0 then - 1 else shift_loop offset1 ccs)"

text \<open>The outer loop of \<^verbatim>\<open>onDocChange\<close>; the result is \<^verbatim>\<open>newOffsets\<close>.\<close>

fun newOffsets :: "Host \<Rightarrow> PositionSlicer \<Rightarrow> ContentChange list \<Rightarrow> int list \<Rightarrow> int list" where
  "newOffsets h s ccs [] = []"
| "newOffsets h s ccs (offset # rest) =
     (let offset2 = normalizeOffset h s (Inl (shift_loop offset ccs))
      in if offset2 \<ge> 0 then offset2 # newOffsets h s ccs rest
         else newOffsets h s ccs rest)"

text \<open>
  The remapping of one offset as the specification words it (section 4.1): the
  offset-shift function is applied once per edit, in the order of the edits, and an
  invalidation ends the pipeline; every other value, the offset \<open>0\<close> included, is
  passed on to the next edit.
\<close>

fun pipeOffset_spec :: "int \<Rightarrow> ContentChange list \<Rightarrow> int option" where
  "pipeOffset_spec offset [] = Some offset"
| "pipeOffset_spec offset (cc # ccs) =
     (case shiftOffset offset cc of
        None \<Rightarrow> None
      | Some offset1 \<Rightarrow> pipeOffset_spec offset1 ccs)"

text \<open>\<^verbatim>\<open>makeUri()\<close>: authority and path of the reconstruction document.\<close>

definition makeUri :: "Host \<Rightarrow> PositionSlicer \<Rightarrow> Uri" where
  "makeUri h s =
     (let docPath = uriPath h (doc s) @ '' - '' @ positionSlicerSuffix
      in (positionSlicerAuthority, docPath))"

text \<open>\<^verbatim>\<open>this.sliceDecos ||= makeSliceDecorationTypes()\<close>.\<close>

definition ensureSliceDecos :: "PositionSlicer \<Rightarrow> PositionSlicer" where
  "ensureSliceDecos s =
     (case sliceDecos s of None \<Rightarrow> s\<lparr>sliceDecos := Some DecoTypes\<rparr> | Some d \<Rightarrow> s)"

definition clearSliceDecos :: "PositionSlicer \<Rightarrow> PositionSlicer \<times> Effect list" where
  "clearSliceDecos s =
     (s\<lparr>sliceDecos := None\<rparr>,
      (case sliceDecos s of None \<Rightarrow> [] | Some d \<Rightarrow> [DisposeSliceDecos]))"

text \<open>The first loop of \<^verbatim>\<open>updateTargetDecos\<close>: the ranges of the tracked tokens.\<close>

fun targetRanges :: "Host \<Rightarrow> PositionSlicer \<Rightarrow> int list \<Rightarrow> Range list" where
  "targetRanges h s [] = []"
| "targetRanges h s (offset # rest) =
     (let pos = positionAt h (doc s) offset
      in case getPositionAt h pos (doc s) of
           None \<Rightarrow> targetRanges h s rest
         | Some rng \<Rightarrow> rng # targetRanges h s rest)"

text \<open>The second loop of \<^verbatim>\<open>updateTargetDecos\<close>, over the visible editors.\<close>

fun targetEditors ::
  "PositionSlicer \<Rightarrow> Range list \<Rightarrow> (EditorId \<times> DocId) list \<Rightarrow> PositionSlicer \<times> Effect list" where
  "targetEditors s ranges [] = (s, [])"
| "targetEditors s ranges ((editor, d) # rest) =
     (if d = doc s
      then (let (s1, fx) = targetEditors (ensureSliceDecos s) ranges rest
            in (s1, SetDecorations editor ranges # fx))
      else targetEditors s ranges rest)"

definition updateTargetDecos :: "Host \<Rightarrow> PositionSlicer \<Rightarrow> PositionSlicer \<times> Effect list" where
  "updateTargetDecos h s =
     targetEditors s (targetRanges h s (offsets s)) (visibleTextEditors h)"

text \<open>The loop of \<^verbatim>\<open>updateSlices\<close> over the visible editors.\<close>

fun displayEditors ::
  "PositionSlicer \<Rightarrow> SliceElement list \<Rightarrow> (EditorId \<times> DocId) list \<Rightarrow> PositionSlicer \<times> Effect list" where
  "displayEditors s sliceElements [] = (s, [])"
| "displayEditors s sliceElements ((editor, d) # rest) =
     (if d = doc s
      then (let (s1, fx) = displayEditors (ensureSliceDecos s) sliceElements rest
            in (s1, DisplaySlice editor sliceElements # fx))
      else displayEditors s sliceElements rest)"

text \<open>
  \<^verbatim>\<open>updateSlices\<close> is asynchronous and suspends at
  \<^verbatim>\<open>await session.retrieveSlice(positions, this.doc)\<close>. \<open>updateSlices_start\<close> is the
  part before that point: it either finishes with the value \<^verbatim>\<open>undefined\<close>
  (\<open>Inl\<close>) or sends the request and suspends (\<open>Inr\<close> with the positions sent).
  \<open>updateSlices_resume\<close> is the part that runs when the response arrives. The result
  \<^verbatim>\<open>string | undefined\<close> is a \<open>string option\<close>. The earlier suspension at
  \<^verbatim>\<open>await getFlowrSession()\<close>, a function that is not among the sources, is not
  a step of its own: the positions are read from \<^verbatim>\<open>this.offsets\<close> after it.
\<close>

definition updateSlices_start ::
  "Host \<Rightarrow> PositionSlicer \<Rightarrow> PositionSlicer \<times> Effect list \<times> (string option + Position list)" where
  "updateSlices_start h s =
     (let positions = map (\<lambda>offset. positionAt h (doc s) offset) (offsets s)
      in if length positions = 0
         then (let (s1, fx) = clearSliceDecos s in (s1, fx, Inl None))
         else (s, [RetrieveSlice positions (doc s)], Inr positions))"

definition updateSlices_resume ::
  "Host \<Rightarrow> PositionSlicer \<Rightarrow> string \<times> SliceElement list \<Rightarrow>
   PositionSlicer \<times> Effect list \<times> string option" where
  "updateSlices_resume h s response =
     (let (code, sliceElements) = response
      in if length sliceElements = 0
         then (let (s1, fx) = clearSliceDecos s in (s1, fx, None))
         else (let (s1, fx) = displayEditors s sliceElements (visibleTextEditors h)
               in (s1, fx, Some code)))"

text \<open>
  \<^verbatim>\<open>updateSlices\<close> run to completion, with the backend answering as the host
  says and nothing else happening in between.
\<close>

definition updateSlices ::
  "Host \<Rightarrow> PositionSlicer \<Rightarrow> PositionSlicer \<times> Effect list \<times> string option" where
  "updateSlices h s =
     (case updateSlices_start h s of
        (s1, fx1, Inl code) \<Rightarrow> (s1, fx1, code)
      | (s1, fx1, Inr positions) \<Rightarrow>
          (let (s2, fx2, code) = updateSlices_resume h s1 (retrieveSlice h positions (doc s1))
           in (s2, fx1 @ fx2, code)))"

text \<open>
  \<^verbatim>\<open>code || '# No slice'\<close>: the default is taken for \<^verbatim>\<open>undefined\<close> and for
  the empty string.
\<close>

definition orNoSlice :: "string option \<Rightarrow> string" where
  "orNoSlice code =
     (case code of None \<Rightarrow> ''# No slice'' | Some c \<Rightarrow> if c = [] then ''# No slice'' else c)"

text \<open>The last two statements of \<^verbatim>\<open>updateOutput\<close>.\<close>

definition updateOutput_finish :: "Host \<Rightarrow> PositionSlicer \<Rightarrow> string option \<Rightarrow> Effect list" where
  "updateOutput_finish h s code = [UpdateContents (makeUri h s) (Some (orNoSlice code))]"

text \<open>
  \<^verbatim>\<open>updateOutput\<close>, split at the same suspension point as \<^verbatim>\<open>updateSlices\<close>:
  the start either runs to the end (\<open>None\<close>) or suspends with a request in flight
  (\<open>Some\<close> of the positions sent).
\<close>

definition updateOutput_start ::
  "Host \<Rightarrow> PositionSlicer \<Rightarrow> PositionSlicer \<times> Effect list \<times> Position list option" where
  "updateOutput_start h s =
     (let (s1, fx1) = updateTargetDecos h s
      in case updateSlices_start h s1 of
           (s2, fx2, Inl code) \<Rightarrow> (s2, fx1 @ fx2 @ updateOutput_finish h s2 code, None)
         | (s2, fx2, Inr positions) \<Rightarrow> (s2, fx1 @ fx2, Some positions))"

definition updateOutput_resume ::
  "Host \<Rightarrow> PositionSlicer \<Rightarrow> string \<times> SliceElement list \<Rightarrow> PositionSlicer \<times> Effect list" where
  "updateOutput_resume h s response =
     (let (s1, fx, code) = updateSlices_resume h s response
      in (s1, fx @ updateOutput_finish h s1 code))"

definition updateOutput :: "Host \<Rightarrow> PositionSlicer \<Rightarrow> PositionSlicer \<times> Effect list" where
  "updateOutput h s =
     (let (s1, fx1) = updateTargetDecos h s;
          (s2, fx2, code) = updateSlices h s1
      in (s2, fx1 @ fx2 @ updateOutput_finish h s2 code))"

text \<open>
  \<^verbatim>\<open>onDocChange\<close>, run to completion. The host is the one after the change: the
  event is delivered once the document holds the new text.
\<close>

definition onDocChange ::
  "Host \<Rightarrow> PositionSlicer \<Rightarrow> TextDocumentChangeEvent \<Rightarrow> PositionSlicer \<times> Effect list" where
  "onDocChange h s e =
     (if document e \<noteq> doc s then (s, [])
      else if length (contentChanges e) = 0 then (s, [])
      else updateOutput h (s\<lparr>offsets := newOffsets h s (contentChanges e) (offsets s)\<rparr>))"

text \<open>\<^verbatim>\<open>dispose()\<close> leaves the fields as they are.\<close>

definition dispose :: "PositionSlicer \<Rightarrow> Effect list" where
  "dispose s =
     [UpdateContents (positionSlicerAuthority, positionSlicerSuffix) None, DisposePositionDeco]
     @ (case sliceDecos s of None \<Rightarrow> [] | Some d \<Rightarrow> [DisposeSliceDecos])"

subsection \<open>The map of active position slicers\<close>

text \<open>
  \<^verbatim>\<open>docSlicers: Map<vscode.TextDocument, PositionSlicer>\<close>. The slicer objects are
  shared between the map and their own change listeners; the model keeps each slicer
  inside the map and writes a changed slicer back.
\<close>

type_synonym DocSlicers = "DocId \<rightharpoonup> PositionSlicer"

text \<open>
  \<^verbatim>\<open>addPositions\<close>, run to completion; the results are the map, the returned
  slicer (\<open>None\<close> for \<^verbatim>\<open>undefined\<close>) and the effects.
\<close>

definition addPositions ::
  "Host \<Rightarrow> DocSlicers \<Rightarrow> Position list \<Rightarrow> DocId \<Rightarrow>
   DocSlicers \<times> PositionSlicer option \<times> Effect list" where
  "addPositions h docSlicers positions d =
     (let flowrSlicer = (case docSlicers d of Some s \<Rightarrow> s | None \<Rightarrow> new_PositionSlicer d);
          docSlicers1 = (if docSlicers d = None then docSlicers(d \<mapsto> flowrSlicer) else docSlicers);
          (s1, ret) = togglePositions h flowrSlicer positions;
          (s2, fx) = (if ret then updateOutput h s1 else (s1, []))
      in if length (offsets s2) = 0
         then (docSlicers1(d := None), None, fx @ dispose s2)
         else (docSlicers1(d \<mapsto> s2), Some s2, fx @ [ClearSelectionSliceDecos d]))"

text \<open>
  The constructor subscribes every slicer to
  \<^verbatim>\<open>vscode.workspace.onDidChangeTextDocument\<close> with \<^verbatim>\<open>onDocChange\<close> as the
  handler. The map after one change event is the map in which every slicer has handled
  the event.
\<close>

definition onDidChangeTextDocument ::
  "Host \<Rightarrow> DocSlicers \<Rightarrow> TextDocumentChangeEvent \<Rightarrow> DocSlicers" where
  "onDidChangeTextDocument h docSlicers e =
     (\<lambda>d. map_option (\<lambda>s. fst (onDocChange h s e)) (docSlicers d))"

subsection \<open>Slice requests and responses in time\<close>

text \<open>
  One slicer with its requests in flight. \<open>Trigger\<close> is a call of
  \<^verbatim>\<open>updateOutput\<close> up to its suspension; \<open>Respond k r\<close> is the arrival of the
  response \<open>r\<close> to the \<open>k\<close>-th request sent, which resumes the suspended call.
  The number \<open>k\<close> and the counter \<open>issued\<close> exist in the model only, to name the
  requests: the source keeps no counter and its continuation does not know which
  request it answers.
\<close>

datatype Event = Trigger | Respond nat "string \<times> SliceElement list"

record Coordinator =
  slicer :: PositionSlicer
  issued :: nat
  trace :: "Effect list"

definition step :: "Host \<Rightarrow> Coordinator \<Rightarrow> Event \<Rightarrow> Coordinator" where
  "step h c ev =
     (case ev of
        Trigger \<Rightarrow>
          (let (s1, fx, pending) = updateOutput_start h (slicer c)
           in \<lparr>slicer = s1,
               issued = (case pending of None \<Rightarrow> issued c | Some positions \<Rightarrow> issued c + 1),
               trace = trace c @ fx\<rparr>)
      | Respond k response \<Rightarrow>
          (let (s1, fx) = updateOutput_resume h (slicer c) response
           in \<lparr>slicer = s1, issued = issued c, trace = trace c @ fx\<rparr>))"

fun run :: "Host \<Rightarrow> Coordinator \<Rightarrow> Event list \<Rightarrow> Coordinator" where
  "run h c [] = c"
| "run h c (ev # evs) = run h (step h c ev) evs"

text \<open>
  The reconstruction shown to the user: the content of the last
  \<^verbatim>\<open>provider.updateContents\<close> in a trace, \<open>None\<close> if there is none or if the
  last one removed the content.
\<close>

fun contentUpdates :: "Effect list \<Rightarrow> string option list" where
  "contentUpdates [] = []"
| "contentUpdates (UpdateContents uri content # fx) = content # contentUpdates fx"
| "contentUpdates (x # fx) = contentUpdates fx"

definition rendered :: "Effect list \<Rightarrow> string option" where
  "rendered fx = (case contentUpdates fx of [] \<Rightarrow> None | c # cs \<Rightarrow> last (c # cs))"

subsection \<open>The analysis session\<close>

text \<open>
  \<^verbatim>\<open>flowrSession: FlowrInternalSession | FlowrServerSession | undefined\<close>. A session
  object is identified by a number given at construction.
\<close>

datatype SessionKind = FlowrInternalSession | FlowrServerSession

record Session =
  kind :: SessionKind
  sid :: nat

text \<open>
  The extension state as far as sessions go: the variable \<^verbatim>\<open>flowrSession\<close>, the
  number of session objects constructed so far, and the sessions on which
  \<^verbatim>\<open>destroy()\<close> has been called, oldest first.
\<close>

record Extension =
  flowrSession :: "Session option"
  constructed :: nat
  destroyed :: "nat list"

definition new_Session :: "SessionKind \<Rightarrow> Extension \<Rightarrow> Session \<times> Extension" where
  "new_Session k x = (\<lparr>kind = k, sid = constructed x\<rparr>, x\<lparr>constructed := constructed x + 1\<rparr>)"

text \<open>\<^verbatim>\<open>flowrSession?.destroy()\<close>: the call is made only if the variable holds a session.\<close>

definition destroy_opt :: "Extension \<Rightarrow> Extension" where
  "destroy_opt x =
     (case flowrSession x of
        None \<Rightarrow> x
      | Some sess \<Rightarrow> x\<lparr>destroyed := destroyed x @ [sid sess]\<rparr>)"

text \<open>The functions of \<^verbatim>\<open>src/unnamed/part_000\<close>.\<close>

definition destroySession :: "Extension \<Rightarrow> Extension" where
  "destroySession x = (destroy_opt x)\<lparr>flowrSession := None\<rparr>"

definition establishInternalSession :: "Extension \<Rightarrow> Extension" where
  "establishInternalSession x =
     (let (sess, x1) = new_Session FlowrInternalSession (destroySession x)
      in x1\<lparr>flowrSession := Some sess\<rparr>)"

definition establishServerSession :: "Extension \<Rightarrow> Extension" where
  "establishServerSession x =
     (let (sess, x1) = new_Session FlowrServerSession (destroySession x)
      in x1\<lparr>flowrSession := Some sess\<rparr>)"

text \<open>
  The functions of the same names in the first document of \<^verbatim>\<open>src/src/extension.ts\<close>,
  which call \<^verbatim>\<open>flowrSession?.destroy()\<close> themselves.
\<close>

definition establishInternalSession_ext :: "Extension \<Rightarrow> Extension" where
  "establishInternalSession_ext x =
     (let (sess, x1) = new_Session FlowrInternalSession (destroy_opt x)
      in x1\<lparr>flowrSession := Some sess\<rparr>)"

definition establishServerSession_ext :: "Extension \<Rightarrow> Extension" where
  "establishServerSession_ext x =
     (let (sess, x1) = new_Session FlowrServerSession (destroy_opt x)
      in x1\<lparr>flowrSession := Some sess\<rparr>)"

text \<open>
  Modelled from the spec: the method \<^verbatim>\<open>destroy()\<close> of the two session classes is
  not part of the sources at hand. By the specification it terminates the subprocess or
  closes the socket and releases all resources, so a session is live from its
  construction until \<^verbatim>\<open>destroy()\<close> is called on it.
\<close>

definition live :: "Extension \<Rightarrow> nat list" where
  "live x = filter (\<lambda>i. i \<notin> set (destroyed x)) [0..<constructed x]"

text \<open>The state when the extension is loaded.\<close>

definition initial :: Extension where
  "initial = \<lparr>flowrSession = None, constructed = 0, destroyed = []\<rparr>"

text \<open>
  The live sessions are exactly the one the variable holds, if any; and
  \<^verbatim>\<open>destroy()\<close> has only been called on sessions that were constructed.
\<close>

definition session_inv :: "Extension \<Rightarrow> bool" where
  "session_inv x =
     (live x = (case flowrSession x of None \<Rightarrow> [] | Some sess \<Rightarrow> [sid sess]) \<and>
      (\<forall>i \<in> set (destroyed x). i < constructed x))"

text \<open>
  The operations on the session variable, and a sequence of them run from a state.
\<close>

datatype SessionOp = EstablishInternal | EstablishServer | Destroy

fun sessionOp :: "Extension \<Rightarrow> SessionOp \<Rightarrow> Extension" where
  "sessionOp x EstablishInternal = establishInternalSession x"
| "sessionOp x EstablishServer = establishServerSession x"
| "sessionOp x Destroy = destroySession x"

subsection \<open>A sample host\<close>

text \<open>
  A host for concrete runs: one document of a single line, whose tokens are the given
  half-open column ranges, shown in editor \<open>1\<close>. As in the editor,
  \<^verbatim>\<open>positionAt\<close> moves a negative offset to \<open>0\<close>. The backend answers every
  request with the given response.
\<close>

definition lineHost :: "(nat \<times> nat) list \<Rightarrow> string \<times> SliceElement list \<Rightarrow> Host" where
  "lineHost tokens response =
     \<lparr>positionAt = (\<lambda>d n. (0, nat (max 0 n))),
      offsetAt = (\<lambda>d pos. int (snd pos)),
      uriPath = (\<lambda>d. ''/a.R''),
      getPositionAt = (\<lambda>pos d.
         map_option (\<lambda>(a, b). ((0, a), (0, b)))
           (find (\<lambda>(a, b). a \<le> snd pos \<and> snd pos < b) tokens)),
      visibleTextEditors = [(1, 7)],
      retrieveSlice = (\<lambda>positions d. response)\<rparr>"

section \<open>Properties\<close>

subsection \<open>Shifting one offset\<close>

text \<open>
  C2. For every offset and every single edit, the offset-shift function returns the
  offset unchanged when the edit starts strictly after the offset; it signals
  invalidation when the offset lies in the half-open replaced range
  \<open>[start, start + replacedLength)\<close>, the start of a non-empty range included; and in
  the remaining case, the offset being at or after the end of the replaced range, it
  returns the offset plus the replacement length minus the replaced length, which is
  never the invalidation signal.
\<close>

theorem shiftOffset_cases:
  "(offset < rangeOffset cc \<longrightarrow> shiftOffset offset cc = Some offset) \<and>
   (rangeOffset cc \<le> offset \<and> offset < rangeOffset cc + rangeLength cc \<longrightarrow>
      shiftOffset offset cc = None) \<and>
   (rangeOffset cc \<le> offset \<and> rangeOffset cc + rangeLength cc \<le> offset \<longrightarrow>
      shiftOffset offset cc = Some (offset + (int (length (cc_text cc)) - rangeLength cc)) \<and>
      shiftOffset offset cc \<noteq> None)"
  by (simp add: shiftOffset_def Let_def)

theorem shiftOffset_cases_witness:
  "shiftOffset 3 \<lparr>rangeOffset = 5, rangeLength = 2, cc_text = ''xy''\<rparr> = Some 3 \<and>
   shiftOffset 5 \<lparr>rangeOffset = 5, rangeLength = 2, cc_text = ''xy''\<rparr> = None \<and>
   shiftOffset 6 \<lparr>rangeOffset = 5, rangeLength = 2, cc_text = ''xy''\<rparr> = None \<and>
   shiftOffset 7 \<lparr>rangeOffset = 5, rangeLength = 2, cc_text = ''xyz''\<rparr> = Some 8 \<and>
   shiftOffset 5 \<lparr>rangeOffset = 0, rangeLength = 5, cc_text = ''''\<rparr> = Some 0"
  using shiftOffset_cases [of 3 "\<lparr>rangeOffset = 5, rangeLength = 2, cc_text = ''xy''\<rparr>"]
        shiftOffset_cases [of 5 "\<lparr>rangeOffset = 5, rangeLength = 2, cc_text = ''xy''\<rparr>"]
        shiftOffset_cases [of 6 "\<lparr>rangeOffset = 5, rangeLength = 2, cc_text = ''xy''\<rparr>"]
        shiftOffset_cases [of 7 "\<lparr>rangeOffset = 5, rangeLength = 2, cc_text = ''xyz''\<rparr>"]
        shiftOffset_cases [of 5 "\<lparr>rangeOffset = 0, rangeLength = 5, cc_text = ''''\<rparr>"]
  by simp

subsection \<open>Toggling positions\<close>

lemma indexOf_absent: "x \<notin> set xs \<Longrightarrow> indexOf xs x = - 1"
  by (induction xs) (auto simp: Let_def)

lemma indexOf_present: "x \<in> set xs \<Longrightarrow> 0 \<le> indexOf xs x"
  by (induction xs) (auto simp: Let_def)

lemma indexOf_neg_iff: "indexOf xs x < 0 \<longleftrightarrow> x \<notin> set xs"
  using indexOf_absent [of x xs] indexOf_present [of x xs] by auto

lemma toggle_loop_set:
  "set (fst (toggle_loop os (tr, b))) = set tr \<union> set os"
  by (induction os arbitrary: tr b) (auto simp: Let_def indexOf_neg_iff)

lemma toggle_loop_flag:
  "snd (toggle_loop os (tr, b)) = (b \<and> set os \<subseteq> set tr)"
proof (induction os arbitrary: tr b)
  case Nil
  then show ?case by simp
next
  case (Cons a os)
  show ?case
  proof (cases "a \<in> set tr")
    case True
    then show ?thesis using Cons.IH [of tr b] by (simp add: Let_def indexOf_neg_iff)
  next
    case False
    then show ?thesis using Cons.IH [of "tr @ [a]" False] by (simp add: Let_def indexOf_neg_iff)
  qed
qed

lemma toggle_loop_append:
  "\<exists>new. fst (toggle_loop os (tr, b)) = tr @ new \<and> set new = set os - set tr \<and> distinct new"
proof (induction os arbitrary: tr b)
  case Nil
  then show ?case by simp
next
  case (Cons a os)
  show ?case
  proof (cases "a \<in> set tr")
    case True
    then show ?thesis using Cons.IH [of tr b] by (auto simp: Let_def indexOf_neg_iff)
  next
    case False
    from Cons.IH [of "tr @ [a]" False] obtain new where
      n: "fst (toggle_loop os (tr @ [a], False)) = (tr @ [a]) @ new"
         "set new = set os - set (tr @ [a])" "distinct new" by blast
    have "fst (toggle_loop (a # os) (tr, b)) = tr @ (a # new)"
      using False n(1) by (simp add: Let_def indexOf_neg_iff)
    moreover have "set (a # new) = set (a # os) - set tr" using False n(2) by auto
    moreover have "distinct (a # new)" using n(2,3) by auto
    ultimately show ?thesis by blast
  qed
qed

lemma toggle_loop_distinct:
  assumes "distinct tr"
  shows "distinct (fst (toggle_loop os (tr, b)))"
proof -
  obtain new where n: "fst (toggle_loop os (tr, b)) = tr @ new"
      "set new = set os - set tr" "distinct new"
    using toggle_loop_append [of os tr b] by blast
  have "set tr \<inter> set new = {}" using n(2) by blast
  then show ?thesis using assms n(1,3) by simp
qed

lemma toggle_loop_tracked:
  assumes "set os \<subseteq> set tr"
  shows "fst (toggle_loop os (tr, b)) = tr"
proof -
  obtain new where n: "fst (toggle_loop os (tr, b)) = tr @ new"
      "set new = set os - set tr" "distinct new"
    using toggle_loop_append [of os tr b] by blast
  have "set new = {}" unfolding n(2) using assms by simp
  then have "new = []" by simp
  with n(1) show ?thesis by (simp only: append_Nil2)
qed

lemma normalizeOffset_doc:
  "doc s' = doc s \<Longrightarrow> normalizeOffset h s' x = normalizeOffset h s x"
  by (simp add: normalizeOffset_def split: sum.split option.split)

text \<open>
  \<^verbatim>\<open>togglePositions\<close> in closed form: nothing happens when no position
  normalizes; the normalized offsets are filtered out when all of them are tracked; and
  otherwise the loop has appended the untracked ones.
\<close>

lemma togglePositions_eq:
  "togglePositions h s positions =
     (if normalized h s positions = [] then (s, False)
      else if set (normalized h s positions) \<subseteq> set (offsets s)
      then (s\<lparr>offsets := filter (\<lambda>offset. offset \<notin> set (normalized h s positions)) (offsets s)\<rparr>, True)
      else (s\<lparr>offsets := fst (toggle_loop (normalized h s positions) (offsets s, True))\<rparr>, True))"
proof -
  let ?os = "normalized h s positions"
  have b: "snd (toggle_loop ?os (offsets s, True)) = (set ?os \<subseteq> set (offsets s))"
    using toggle_loop_flag [of ?os "offsets s" True] by simp
  have u: "togglePositions h s positions =
     (if ?os = [] then (s, False)
      else (s\<lparr>offsets := (if snd (toggle_loop ?os (offsets s, True))
                then filter (\<lambda>offset. offset \<notin> set ?os) (fst (toggle_loop ?os (offsets s, True)))
                else fst (toggle_loop ?os (offsets s, True)))\<rparr>, True))"
    by (simp add: togglePositions_def normalized_def Let_def case_prod_beta)
  show ?thesis
  proof (cases "set ?os \<subseteq> set (offsets s)")
    case True
    then have f: "fst (toggle_loop ?os (offsets s, True)) = offsets s"
      by (rule toggle_loop_tracked)
    show ?thesis unfolding u b f using True by simp
  next
    case False
    show ?thesis unfolding u b using False by simp
  qed
qed

lemma normalized_doc:
  assumes "doc s' = doc s"
  shows "normalized h s' positions = normalized h s positions"
proof -
  have "\<And>x. normalizeOffset h s' x = normalizeOffset h s x"
    using assms by (rule normalizeOffset_doc)
  then show ?thesis by (simp add: normalized_def)
qed

lemma togglePositions_doc: "doc (fst (togglePositions h s positions)) = doc s"
  by (simp add: togglePositions_eq)

lemma togglePositions_set:
  "set (offsets (fst (togglePositions h s positions))) =
     (if set (normalized h s positions) \<subseteq> set (offsets s)
      then set (offsets s) - set (normalized h s positions)
      else set (offsets s) \<union> set (normalized h s positions))"
  by (auto simp: togglePositions_eq toggle_loop_set)

text \<open>
  \<^verbatim>\<open>togglePositions\<close> keeps the tracked offsets free of duplicates.
\<close>

lemma togglePositions_distinct:
  "distinct (offsets s) \<Longrightarrow> distinct (offsets (fst (togglePositions h s positions)))"
  by (simp add: togglePositions_eq toggle_loop_distinct)

text \<open>
  C4. For every call of \<^verbatim>\<open>togglePositions\<close> whose positions normalize to a
  non-empty list of offsets: if every one of them is already tracked, all of them are
  removed and nothing else changes; otherwise the tracked offsets are kept as they are
  and every offset not yet tracked is added once, so additions and removals are never
  mixed; and the returned boolean says whether the set of tracked offsets has changed.
\<close>

theorem togglePositions_bulk:
  assumes "normalized h s positions \<noteq> []"
  shows "(set (normalized h s positions) \<subseteq> set (offsets s) \<longrightarrow>
            offsets (fst (togglePositions h s positions)) =
              filter (\<lambda>offset. offset \<notin> set (normalized h s positions)) (offsets s)) \<and>
         (\<not> set (normalized h s positions) \<subseteq> set (offsets s) \<longrightarrow>
            (\<exists>new. offsets (fst (togglePositions h s positions)) = offsets s @ new \<and>
                   set new = set (normalized h s positions) - set (offsets s) \<and> distinct new)) \<and>
         snd (togglePositions h s positions) =
           (set (offsets (fst (togglePositions h s positions))) \<noteq> set (offsets s))"
proof (intro conjI impI)
  assume "set (normalized h s positions) \<subseteq> set (offsets s)"
  then show "offsets (fst (togglePositions h s positions)) =
      filter (\<lambda>offset. offset \<notin> set (normalized h s positions)) (offsets s)"
    using assms by (simp add: togglePositions_eq)
next
  assume "\<not> set (normalized h s positions) \<subseteq> set (offsets s)"
  then show "\<exists>new. offsets (fst (togglePositions h s positions)) = offsets s @ new \<and>
      set new = set (normalized h s positions) - set (offsets s) \<and> distinct new"
    using assms toggle_loop_append [of "normalized h s positions" "offsets s" True]
    by (simp add: togglePositions_eq)
next
  obtain x where x: "x \<in> set (normalized h s positions)"
    using assms by (cases "normalized h s positions") auto
  have ret: "snd (togglePositions h s positions)"
    using assms by (simp add: togglePositions_eq)
  have "set (offsets (fst (togglePositions h s positions))) \<noteq> set (offsets s)"
  proof (cases "set (normalized h s positions) \<subseteq> set (offsets s)")
    case True
    then have "x \<in> set (offsets s)" using x by (rule subsetD)
    moreover have "x \<notin> set (offsets (fst (togglePositions h s positions)))"
      using True x by (simp add: togglePositions_set)
    ultimately show ?thesis by metis
  next
    case False
    then obtain y where y: "y \<in> set (normalized h s positions)" "y \<notin> set (offsets s)"
      by (meson subsetI)
    have "y \<in> set (offsets (fst (togglePositions h s positions)))"
      using False y by (simp add: togglePositions_set)
    with y(2) show ?thesis by metis
  qed
  with ret show "snd (togglePositions h s positions) =
      (set (offsets (fst (togglePositions h s positions))) \<noteq> set (offsets s))"
    by simp
qed

theorem togglePositions_bulk_witness:
  "normalized (lineHost [(1, 2), (3, 4)] (''x'', [])) \<lparr>doc = 7, offsets = [1], sliceDecos = None\<rparr>
      [(0, 1), (0, 3)] \<noteq> [] \<and>
   togglePositions (lineHost [(1, 2), (3, 4)] (''x'', [])) \<lparr>doc = 7, offsets = [1], sliceDecos = None\<rparr>
      [(0, 1), (0, 3)] = (\<lparr>doc = 7, offsets = [1, 3], sliceDecos = None\<rparr>, True) \<and>
   togglePositions (lineHost [(1, 2), (3, 4)] (''x'', [])) \<lparr>doc = 7, offsets = [1, 3], sliceDecos = None\<rparr>
      [(0, 1), (0, 3)] = (\<lparr>doc = 7, offsets = [], sliceDecos = None\<rparr>, True)"
  using togglePositions_bulk [of "lineHost [(1, 2), (3, 4)] (''x'', [])"
          "\<lparr>doc = 7, offsets = [1], sliceDecos = None\<rparr>" "[(0, 1), (0, 3)]"]
        togglePositions_bulk [of "lineHost [(1, 2), (3, 4)] (''x'', [])"
          "\<lparr>doc = 7, offsets = [1, 3], sliceDecos = None\<rparr>" "[(0, 1), (0, 3)]"]
  by (simp add: normalized_def togglePositions_def normalizeOffset_def lineHost_def Let_def)

text \<open>
  C5, as amended. Calling \<^verbatim>\<open>togglePositions\<close> twice in a row with the same
  positions restores the set of tracked offsets when the normalized offsets are all
  tracked before the first call, and when none of them is. When only some of them are
  tracked, the first call adds the others and the second call removes them all, so
  the result is the original set without the offsets of the positions.
\<close>

theorem togglePositions_twice:
  "(set (normalized h s positions) \<subseteq> set (offsets s) \<longrightarrow>
      set (offsets (fst (togglePositions h (fst (togglePositions h s positions)) positions))) =
        set (offsets s)) \<and>
   (set (normalized h s positions) \<inter> set (offsets s) = {} \<longrightarrow>
      set (offsets (fst (togglePositions h (fst (togglePositions h s positions)) positions))) =
        set (offsets s)) \<and>
   (\<not> set (normalized h s positions) \<subseteq> set (offsets s) \<longrightarrow>
      set (offsets (fst (togglePositions h (fst (togglePositions h s positions)) positions))) =
        set (offsets s) - set (normalized h s positions))"
proof -
  let ?s1 = "fst (togglePositions h s positions)"
  let ?N = "set (normalized h s positions)"
  let ?A = "set (offsets s)"
  have n1: "normalized h ?s1 positions = normalized h s positions"
    by (rule normalized_doc) (rule togglePositions_doc)
  have one: "set (offsets ?s1) = (if ?N \<subseteq> ?A then ?A - ?N else ?A \<union> ?N)"
    by (rule togglePositions_set)
  have two: "set (offsets (fst (togglePositions h ?s1 positions))) =
      (if ?N \<subseteq> set (offsets ?s1) then set (offsets ?s1) - ?N else set (offsets ?s1) \<union> ?N)"
    using togglePositions_set [of h ?s1 positions] unfolding n1 .
  have a: "?N \<subseteq> ?A \<Longrightarrow> set (offsets (fst (togglePositions h ?s1 positions))) = ?A"
    unfolding two one by auto
  have c: "\<not> ?N \<subseteq> ?A \<Longrightarrow> set (offsets (fst (togglePositions h ?s1 positions))) = ?A - ?N"
    unfolding two one by auto
  have b: "?N \<inter> ?A = {} \<Longrightarrow> set (offsets (fst (togglePositions h ?s1 positions))) = ?A"
    unfolding two one by auto
  show ?thesis using a b c by simp
qed

theorem togglePositions_twice_witness:
  "set (offsets (fst (togglePositions (lineHost [(1, 2), (3, 4)] (''x'', []))
      (fst (togglePositions (lineHost [(1, 2), (3, 4)] (''x'', []))
          \<lparr>doc = 7, offsets = [3, 1], sliceDecos = None\<rparr> [(0, 1), (0, 3)]))
      [(0, 1), (0, 3)]))) = {1, 3} \<and>
   set (offsets (fst (togglePositions (lineHost [(1, 2), (3, 4)] (''x'', []))
      (fst (togglePositions (lineHost [(1, 2), (3, 4)] (''x'', []))
          \<lparr>doc = 7, offsets = [], sliceDecos = None\<rparr> [(0, 1), (0, 3)]))
      [(0, 1), (0, 3)]))) = {} \<and>
   set (offsets (fst (togglePositions (lineHost [(1, 2), (3, 4)] (''x'', []))
      (fst (togglePositions (lineHost [(1, 2), (3, 4)] (''x'', []))
          \<lparr>doc = 7, offsets = [1], sliceDecos = None\<rparr> [(0, 1), (0, 3)]))
      [(0, 1), (0, 3)]))) = {}"
  using togglePositions_twice [of "lineHost [(1, 2), (3, 4)] (''x'', [])"
          "\<lparr>doc = 7, offsets = [3, 1], sliceDecos = None\<rparr>" "[(0, 1), (0, 3)]"]
        togglePositions_twice [of "lineHost [(1, 2), (3, 4)] (''x'', [])"
          "\<lparr>doc = 7, offsets = [], sliceDecos = None\<rparr>" "[(0, 1), (0, 3)]"]
        togglePositions_twice [of "lineHost [(1, 2), (3, 4)] (''x'', [])"
          "\<lparr>doc = 7, offsets = [1], sliceDecos = None\<rparr>" "[(0, 1), (0, 3)]"]
  by (simp add: normalized_def togglePositions_def normalizeOffset_def lineHost_def Let_def)

text \<open>
  C5 as stated fails: with offset \<open>1\<close> tracked, toggling the positions of the
  tokens at \<open>1\<close> and \<open>3\<close> twice leaves nothing tracked.
\<close>

theorem togglePositions_twice_counterexample:
  "set (offsets (fst (togglePositions (lineHost [(1, 2), (3, 4)] (''x'', []))
      (fst (togglePositions (lineHost [(1, 2), (3, 4)] (''x'', []))
          \<lparr>doc = 7, offsets = [1], sliceDecos = None\<rparr> [(0, 1), (0, 3)]))
      [(0, 1), (0, 3)]))) \<noteq> set (offsets \<lparr>doc = 7, offsets = [1], sliceDecos = None\<rparr>)"
  by (simp add: togglePositions_def normalizeOffset_def lineHost_def Let_def)

subsection \<open>Document changes\<close>

text \<open>
  C10. A change event for another document, or one without content changes, leaves
  the slicer as it is, the tracked offsets included, and has no effect: no slice
  request, no decoration update, no output update.
\<close>

theorem onDocChange_frame:
  "document e \<noteq> doc s \<or> contentChanges e = [] \<Longrightarrow> onDocChange h s e = (s, [])"
  by (auto simp: onDocChange_def)

theorem onDocChange_frame_witness:
  "onDocChange (lineHost [(1, 2)] (''x'', [])) \<lparr>doc = 7, offsets = [1], sliceDecos = None\<rparr>
     \<lparr>document = 8, contentChanges = [\<lparr>rangeOffset = 0, rangeLength = 1, cc_text = ''''\<rparr>]\<rparr> =
     (\<lparr>doc = 7, offsets = [1], sliceDecos = None\<rparr>, []) \<and>
   onDocChange (lineHost [(1, 2)] (''x'', [])) \<lparr>doc = 7, offsets = [1], sliceDecos = None\<rparr>
     \<lparr>document = 7, contentChanges = []\<rparr> =
     (\<lparr>doc = 7, offsets = [1], sliceDecos = None\<rparr>, [])"
  using onDocChange_frame [of "\<lparr>document = 8, contentChanges = [\<lparr>rangeOffset = 0, rangeLength = 1, cc_text = ''''\<rparr>]\<rparr>"
          "\<lparr>doc = 7, offsets = [1], sliceDecos = None\<rparr>" "lineHost [(1, 2)] (''x'', [])"]
        onDocChange_frame [of "\<lparr>document = 7, contentChanges = []\<rparr>"
          "\<lparr>doc = 7, offsets = [1], sliceDecos = None\<rparr>" "lineHost [(1, 2)] (''x'', [])"]
  by simp

text \<open>
  The inner loop against the pipeline of the specification: an invalidation gives the
  marker \<open>-1\<close>, and a run that does not end in the marker has computed the value of
  the pipeline. The loop also gives the marker when a shifted offset is \<open>0\<close>.
\<close>

lemma shift_loop_invalidated:
  "pipeOffset_spec offset ccs = None \<Longrightarrow> shift_loop offset ccs = - 1"
  by (induction offset ccs rule: shift_loop.induct) (auto split: option.splits)

lemma shift_loop_pipeline:
  "shift_loop offset ccs \<noteq> - 1 \<Longrightarrow> pipeOffset_spec offset ccs = Some (shift_loop offset ccs)"
  by (induction offset ccs rule: shift_loop.induct) (auto split: option.splits if_splits)

lemmas run_defs = onDocChange_def updateOutput_def updateTargetDecos_def updateSlices_def
  updateSlices_start_def updateSlices_resume_def updateOutput_finish_def clearSliceDecos_def
  ensureSliceDecos_def makeUri_def orNoSlice_def normalizeOffset_def shiftOffset_def lineHost_def
  positionSlicerAuthority_def positionSlicerSuffix_def Let_def

text \<open>
  C3 fails on the code where a shifted offset is \<open>0\<close>. Deleting the prefix of
  length \<open>3\<close> moves the offset \<open>3\<close> to \<open>0\<close>, and the loop leaves with the
  marker \<open>-1\<close> as for an invalidation. What becomes of the marker depends on
  \<^verbatim>\<open>positionAt\<close>; the second input fails whatever it does. There the token at
  offset \<open>0\<close> is tracked and the text \<open>''y ''\<close> is inserted at offsets \<open>10\<close>
  and \<open>0\<close>. No edit invalidates the offset: the pipeline of the specification
  moves it to \<open>2\<close>, where the token now starts. The code takes the value \<open>0\<close>
  returned for the first edit for an invalidation and skips the second edit; the
  slicer ends up tracking offset \<open>0\<close>, which is the start of the inserted text.
\<close>

theorem onDocChange_zero_dropped:
  "pipeOffset_spec 3 [\<lparr>rangeOffset = 0, rangeLength = 3, cc_text = ''''\<rparr>] = Some 0 \<and>
   shift_loop 3 [\<lparr>rangeOffset = 0, rangeLength = 3, cc_text = ''''\<rparr>] = - 1 \<and>
   pipeOffset_spec 0 [\<lparr>rangeOffset = 10, rangeLength = 0, cc_text = ''y ''\<rparr>,
                 \<lparr>rangeOffset = 0, rangeLength = 0, cc_text = ''y ''\<rparr>] = Some 2 \<and>
   normalizeOffset (lineHost [(0, 1), (2, 3)] (''x'', []))
     \<lparr>doc = 7, offsets = [0], sliceDecos = None\<rparr> (Inl 2) = 2 \<and>
   offsets (fst (onDocChange (lineHost [(0, 1), (2, 3)] (''x'', []))
     \<lparr>doc = 7, offsets = [0], sliceDecos = None\<rparr>
     \<lparr>document = 7, contentChanges =
        [\<lparr>rangeOffset = 10, rangeLength = 0, cc_text = ''y ''\<rparr>,
         \<lparr>rangeOffset = 0, rangeLength = 0, cc_text = ''y ''\<rparr>]\<rparr>)) = [0]"
  by (simp add: run_defs)

text \<open>
  C6 fails on the code for document changes. The tokens at offsets \<open>1\<close> and \<open>3\<close>
  are tracked and the character between them is deleted, which makes them one token
  starting at \<open>1\<close>: both offsets normalize to \<open>1\<close> and both are pushed.
\<close>

theorem onDocChange_duplicates:
  "distinct (offsets \<lparr>doc = 7, offsets = [1, 3], sliceDecos = None\<rparr>) \<and>
   offsets (fst (onDocChange (lineHost [(1, 3)] (''x'', []))
     \<lparr>doc = 7, offsets = [1, 3], sliceDecos = None\<rparr>
     \<lparr>document = 7, contentChanges = [\<lparr>rangeOffset = 2, rangeLength = 1, cc_text = ''''\<rparr>]\<rparr>)) = [1, 1]"
  by (simp add: run_defs)

text \<open>
  \<^verbatim>\<open>addPositions\<close> never leaves a slicer without tracked offsets in the map
  under the document it was called for.
\<close>

lemma addPositions_not_empty:
  assumes "fst (addPositions h docSlicers positions d) d = Some s"
  shows "offsets s \<noteq> []"
proof -
  let ?fs = "case docSlicers d of Some s \<Rightarrow> s | None \<Rightarrow> new_PositionSlicer d"
  let ?t = "togglePositions h ?fs positions"
  let ?u = "if snd ?t then updateOutput h (fst ?t) else (fst ?t, [])"
  have eq: "fst (addPositions h docSlicers positions d) d =
      (if length (offsets (fst ?u)) = 0 then None else Some (fst ?u))"
    by (simp add: addPositions_def Let_def case_prod_beta)
  show ?thesis using assms unfolding eq by (auto split: if_splits)
qed

text \<open>
  C7 fails on the code for document changes. The only tracked token is deleted; the
  slicer stays in the map with no tracked offset.
\<close>

theorem onDocChange_keeps_empty_slicer:
  "onDidChangeTextDocument (lineHost [(2, 5)] (''x'', []))
     (Map.empty(7 \<mapsto> \<lparr>doc = 7, offsets = [6], sliceDecos = None\<rparr>))
     \<lparr>document = 7, contentChanges = [\<lparr>rangeOffset = 5, rangeLength = 4, cc_text = ''''\<rparr>]\<rparr> 7 =
     Some \<lparr>doc = 7, offsets = [], sliceDecos = None\<rparr>"
  by (simp add: onDidChangeTextDocument_def run_defs)

subsection \<open>Slice updates\<close>

lemma ensureSliceDecos_fields:
  "doc (ensureSliceDecos s) = doc s" "offsets (ensureSliceDecos s) = offsets s"
  by (simp_all add: ensureSliceDecos_def split: option.split)

lemma targetEditors_fields:
  "doc (fst (targetEditors s ranges eds)) = doc s \<and>
   offsets (fst (targetEditors s ranges eds)) = offsets s"
proof (induction eds arbitrary: s)
  case Nil
  then show ?case by simp
next
  case (Cons ed eds)
  obtain editor d where ed: "ed = (editor, d)" by (cases ed)
  show ?case
    using Cons.IH [of s] Cons.IH [of "ensureSliceDecos s"]
    by (simp add: ed ensureSliceDecos_fields case_prod_beta)
qed

lemma targetEditors_effects:
  "fx \<in> set (snd (targetEditors s ranges eds)) \<Longrightarrow> \<exists>editor. fx = SetDecorations editor ranges"
proof (induction eds arbitrary: s)
  case Nil
  then show ?case by simp
next
  case (Cons ed eds)
  obtain editor d where ed: "ed = (editor, d)" by (cases ed)
  show ?case
  proof (cases "d = doc s")
    case True
    then have "fx = SetDecorations editor ranges \<or>
        fx \<in> set (snd (targetEditors (ensureSliceDecos s) ranges eds))"
      using Cons.prems by (simp add: ed case_prod_beta)
    then show ?thesis using Cons.IH [of "ensureSliceDecos s"] by blast
  next
    case False
    then have "fx \<in> set (snd (targetEditors s ranges eds))"
      using Cons.prems by (simp add: ed)
    then show ?thesis by (rule Cons.IH)
  qed
qed

lemma targetEditors_decos:
  "sliceDecos s \<noteq> None \<Longrightarrow> sliceDecos (fst (targetEditors s ranges eds)) \<noteq> None"
proof (induction eds arbitrary: s)
  case Nil
  then show ?case by simp
next
  case (Cons ed eds)
  obtain editor d where ed: "ed = (editor, d)" by (cases ed)
  have "sliceDecos (ensureSliceDecos s) \<noteq> None"
    by (simp add: ensureSliceDecos_def split: option.split)
  then show ?case
    using Cons.IH [of s] Cons.IH [of "ensureSliceDecos s"] Cons.prems
    by (simp add: ed case_prod_beta)
qed

lemma contentUpdates_append:
  "contentUpdates (xs @ ys) = contentUpdates xs @ contentUpdates ys"
  by (induction xs rule: contentUpdates.induct) simp_all

lemma rendered_last: "contentUpdates fx \<noteq> [] \<Longrightarrow> rendered fx = last (contentUpdates fx)"
  by (cases "contentUpdates fx") (simp_all add: rendered_def)

lemma rendered_snoc: "rendered (fx @ [UpdateContents uri c]) = c"
  by (simp add: rendered_last contentUpdates_append)

lemma updateSlices_empty:
  "offsets s = [] \<Longrightarrow>
   updateSlices h s =
     (s\<lparr>sliceDecos := None\<rparr>,
      (case sliceDecos s of None \<Rightarrow> [] | Some d \<Rightarrow> [DisposeSliceDecos]), None)"
  by (simp add: updateSlices_def updateSlices_start_def clearSliceDecos_def)

lemma updateSlices_resume_empty:
  "snd response = [] \<Longrightarrow>
   updateSlices_resume h s response =
     (s\<lparr>sliceDecos := None\<rparr>,
      (case sliceDecos s of None \<Rightarrow> [] | Some d \<Rightarrow> [DisposeSliceDecos]), None)"
  by (simp add: updateSlices_resume_def clearSliceDecos_def case_prod_beta)

lemma updateSlices_resume_code:
  "snd (snd (updateSlices_resume h s response)) =
     (if snd response = [] then None else Some (fst response))"
  by (simp add: updateSlices_resume_def clearSliceDecos_def case_prod_beta)

lemma updateSlices_nonempty:
  "offsets s \<noteq> [] \<Longrightarrow>
   updateSlices h s =
     (let positions = map (\<lambda>offset. positionAt h (doc s) offset) (offsets s);
          r = updateSlices_resume h s (retrieveSlice h positions (doc s))
      in (fst r, RetrieveSlice positions (doc s) # fst (snd r), snd (snd r)))"
  by (simp add: updateSlices_def updateSlices_start_def Let_def case_prod_beta)

lemma updateOutput_eq:
  "updateOutput h s =
     (let t = updateTargetDecos h s; u = updateSlices h (fst t)
      in (fst u, snd t @ fst (snd u) @ updateOutput_finish h (fst u) (snd (snd u))))"
  by (simp add: updateOutput_def Let_def case_prod_beta)

lemma updateTargetDecos_fields:
  "doc (fst (updateTargetDecos h s)) = doc s" "offsets (fst (updateTargetDecos h s)) = offsets s"
  by (simp_all add: updateTargetDecos_def targetEditors_fields)

lemma updateTargetDecos_effects:
  "fx \<in> set (snd (updateTargetDecos h s)) \<Longrightarrow> \<exists>editor ranges. fx = SetDecorations editor ranges"
  unfolding updateTargetDecos_def using targetEditors_effects by blast

lemma orNoSlice_None: "orNoSlice None = ''# No slice''"
  by (simp add: orNoSlice_def)

lemma updateOutput_empty:
  assumes "offsets s = []"
  shows "updateOutput h s =
     ((fst (updateTargetDecos h s))\<lparr>sliceDecos := None\<rparr>,
      (snd (updateTargetDecos h s) @
       (case sliceDecos (fst (updateTargetDecos h s)) of None \<Rightarrow> [] | Some d \<Rightarrow> [DisposeSliceDecos])) @
      [UpdateContents (makeUri h s) (Some ''# No slice'')])"
proof -
  let ?s1 = "fst (updateTargetDecos h s)"
  have "offsets ?s1 = []" using assms by (simp add: updateTargetDecos_fields)
  then have u: "updateSlices h ?s1 =
     (?s1\<lparr>sliceDecos := None\<rparr>,
      (case sliceDecos ?s1 of None \<Rightarrow> [] | Some d \<Rightarrow> [DisposeSliceDecos]), None)"
    by (rule updateSlices_empty)
  have m: "makeUri h (?s1\<lparr>sliceDecos := None\<rparr>) = makeUri h s"
    by (simp add: makeUri_def updateTargetDecos_fields)
  show ?thesis
    unfolding updateOutput_eq Let_def u
    by (simp add: updateOutput_finish_def m orNoSlice_None)
qed

lemma updateOutput_empty_response:
  assumes "offsets s \<noteq> []"
    and "snd (retrieveSlice h (map (\<lambda>offset. positionAt h (doc s) offset) (offsets s)) (doc s)) = []"
  shows "updateOutput h s =
     ((fst (updateTargetDecos h s))\<lparr>sliceDecos := None\<rparr>,
      (snd (updateTargetDecos h s) @
       RetrieveSlice (map (\<lambda>offset. positionAt h (doc s) offset) (offsets s)) (doc s) #
       (case sliceDecos (fst (updateTargetDecos h s)) of None \<Rightarrow> [] | Some d \<Rightarrow> [DisposeSliceDecos])) @
      [UpdateContents (makeUri h s) (Some ''# No slice'')])"
proof -
  let ?s1 = "fst (updateTargetDecos h s)"
  let ?positions = "map (\<lambda>offset. positionAt h (doc s) offset) (offsets s)"
  have f: "offsets ?s1 = offsets s" "doc ?s1 = doc s" by (simp_all add: updateTargetDecos_fields)
  have r: "updateSlices_resume h ?s1 (retrieveSlice h ?positions (doc s)) =
     (?s1\<lparr>sliceDecos := None\<rparr>,
      (case sliceDecos ?s1 of None \<Rightarrow> [] | Some d \<Rightarrow> [DisposeSliceDecos]), None)"
    using assms(2) by (rule updateSlices_resume_empty)
  have "offsets ?s1 \<noteq> []" using assms(1) f by simp
  then have u: "updateSlices h ?s1 =
     (?s1\<lparr>sliceDecos := None\<rparr>,
      RetrieveSlice ?positions (doc s) #
      (case sliceDecos ?s1 of None \<Rightarrow> [] | Some d \<Rightarrow> [DisposeSliceDecos]), None)"
    by (simp add: updateSlices_nonempty f r)
  have m: "makeUri h (?s1\<lparr>sliceDecos := None\<rparr>) = makeUri h s"
    by (simp add: makeUri_def updateTargetDecos_fields)
  show ?thesis
    unfolding updateOutput_eq Let_def u
    by (simp add: updateOutput_finish_def m orNoSlice_None)
qed

text \<open>
  \<^verbatim>\<open>updateOutput\<close> run to completion is its start followed, if a request was
  sent, by its continuation on the answer of the backend.
\<close>

lemma updateOutput_split:
  "updateOutput h s =
     (case updateOutput_start h s of
        (s1, fx1, None) \<Rightarrow> (s1, fx1)
      | (s1, fx1, Some positions) \<Rightarrow>
          (let (s2, fx2) = updateOutput_resume h s1 (retrieveSlice h positions (doc s1))
           in (s2, fx1 @ fx2)))"
  by (simp add: updateOutput_def updateOutput_start_def updateOutput_resume_def updateSlices_def
      updateSlices_start_def Let_def case_prod_beta split: prod.split sum.split)

text \<open>
  C8. When \<^verbatim>\<open>updateOutput\<close> runs with no tracked offset, no slice request is
  sent, the slice decorations are disposed of and forgotten, and the reconstruction
  shows \<open>''# No slice''\<close>. When the response to a request has no slice elements,
  the continuation disposes of the slice decorations and forgets them, displays no
  slice, and the reconstruction shows \<open>''# No slice''\<close>, whatever code the response
  carries; so does the whole update when the backend answers so.
\<close>

theorem updateSlices_fail_open:
  "(offsets s = [] \<longrightarrow>
      (\<forall>positions d. RetrieveSlice positions d \<notin> set (snd (updateOutput h s))) \<and>
      sliceDecos (fst (updateOutput h s)) = None \<and>
      (sliceDecos s \<noteq> None \<longrightarrow> DisposeSliceDecos \<in> set (snd (updateOutput h s))) \<and>
      rendered (snd (updateOutput h s)) = Some ''# No slice'') \<and>
   (snd response = [] \<longrightarrow>
      sliceDecos (fst (updateOutput_resume h s response)) = None \<and>
      (sliceDecos s \<noteq> None \<longrightarrow> DisposeSliceDecos \<in> set (snd (updateOutput_resume h s response))) \<and>
      (\<forall>editor els. DisplaySlice editor els \<notin> set (snd (updateOutput_resume h s response))) \<and>
      rendered (snd (updateOutput_resume h s response)) = Some ''# No slice'') \<and>
   (offsets s \<noteq> [] \<and>
    snd (retrieveSlice h (map (\<lambda>offset. positionAt h (doc s) offset) (offsets s)) (doc s)) = [] \<longrightarrow>
      sliceDecos (fst (updateOutput h s)) = None \<and>
      rendered (snd (updateOutput h s)) = Some ''# No slice'')"
proof (intro conjI impI)
  assume e: "offsets s = []"
  note eq = updateOutput_empty [OF e, of h]
  show "\<forall>positions d. RetrieveSlice positions d \<notin> set (snd (updateOutput h s))"
    unfolding eq using updateTargetDecos_effects [of _ h s]
    by (auto split: option.splits)
  show "sliceDecos (fst (updateOutput h s)) = None" unfolding eq by simp
  show "rendered (snd (updateOutput h s)) = Some ''# No slice''"
    unfolding eq snd_conv by (rule rendered_snoc)
next
  assume e: "offsets s = []" and d: "sliceDecos s \<noteq> None"
  have "sliceDecos (fst (updateTargetDecos h s)) \<noteq> None"
    unfolding updateTargetDecos_def using d by (rule targetEditors_decos)
  then show "DisposeSliceDecos \<in> set (snd (updateOutput h s))"
    unfolding updateOutput_empty [OF e, of h] by (auto split: option.splits)
next
  assume e: "snd response = []"
  have eq: "updateOutput_resume h s response =
     (s\<lparr>sliceDecos := None\<rparr>,
      (case sliceDecos s of None \<Rightarrow> [] | Some d \<Rightarrow> [DisposeSliceDecos]) @
      [UpdateContents (makeUri h s) (Some ''# No slice'')])"
    unfolding updateOutput_resume_def updateSlices_resume_empty [OF e]
    by (simp add: updateOutput_finish_def orNoSlice_None makeUri_def)
  show "sliceDecos (fst (updateOutput_resume h s response)) = None" unfolding eq by simp
  show "\<forall>editor els. DisplaySlice editor els \<notin> set (snd (updateOutput_resume h s response))"
    unfolding eq by (simp split: option.split)
  show "rendered (snd (updateOutput_resume h s response)) = Some ''# No slice''"
    unfolding eq snd_conv by (rule rendered_snoc)
  { assume "sliceDecos s \<noteq> None"
    then show "DisposeSliceDecos \<in> set (snd (updateOutput_resume h s response))"
      unfolding eq by (auto split: option.splits) }
next
  assume a: "offsets s \<noteq> [] \<and>
    snd (retrieveSlice h (map (\<lambda>offset. positionAt h (doc s) offset) (offsets s)) (doc s)) = []"
  note eq = updateOutput_empty_response [OF conjunct1 [OF a] conjunct2 [OF a]]
  show "sliceDecos (fst (updateOutput h s)) = None" unfolding eq by simp
  show "rendered (snd (updateOutput h s)) = Some ''# No slice''"
    unfolding eq snd_conv by (rule rendered_snoc)
qed

theorem updateSlices_fail_open_witness:
  "updateOutput (lineHost [(1, 2)] (''x'', [(1, ((0, 1), (0, 2)))]))
      \<lparr>doc = 7, offsets = [], sliceDecos = Some DecoTypes\<rparr> =
     (\<lparr>doc = 7, offsets = [], sliceDecos = None\<rparr>,
      [SetDecorations 1 [], DisposeSliceDecos,
       UpdateContents (''doc-slicer'', ''/a.R - Slice'') (Some ''# No slice'')]) \<and>
   updateOutput_resume (lineHost [(1, 2)] (''x'', [(1, ((0, 1), (0, 2)))]))
      \<lparr>doc = 7, offsets = [1], sliceDecos = Some DecoTypes\<rparr> (''stale'', []) =
     (\<lparr>doc = 7, offsets = [1], sliceDecos = None\<rparr>,
      [DisposeSliceDecos,
       UpdateContents (''doc-slicer'', ''/a.R - Slice'') (Some ''# No slice'')]) \<and>
   updateOutput (lineHost [(1, 2)] (''x'', []))
      \<lparr>doc = 7, offsets = [1], sliceDecos = Some DecoTypes\<rparr> =
     (\<lparr>doc = 7, offsets = [1], sliceDecos = None\<rparr>,
      [SetDecorations 1 [((0, 1), (0, 2))], RetrieveSlice [(0, 1)] 7, DisposeSliceDecos,
       UpdateContents (''doc-slicer'', ''/a.R - Slice'') (Some ''# No slice'')])"
  using updateSlices_fail_open [of "\<lparr>doc = 7, offsets = [], sliceDecos = Some DecoTypes\<rparr>"
          "lineHost [(1, 2)] (''x'', [(1, ((0, 1), (0, 2)))])" "(''stale'', [])"]
        updateSlices_fail_open [of "\<lparr>doc = 7, offsets = [1], sliceDecos = Some DecoTypes\<rparr>"
          "lineHost [(1, 2)] (''x'', [(1, ((0, 1), (0, 2)))])" "(''stale'', [])"]
        updateSlices_fail_open [of "\<lparr>doc = 7, offsets = [1], sliceDecos = Some DecoTypes\<rparr>"
          "lineHost [(1, 2)] (''x'', [])" "(''stale'', [])"]
  by (simp add: run_defs updateOutput_resume_def)

lemma run_append: "run h c (evs @ evs') = run h (run h c evs) evs'"
  by (induction evs arbitrary: c) simp_all

lemma step_Respond_trace:
  "trace (step h c (Respond k response)) =
     (trace c @ fst (snd (updateSlices_resume h (slicer c) response))) @
     [UpdateContents (makeUri h (fst (updateSlices_resume h (slicer c) response)))
        (Some (orNoSlice (if snd response = [] then None else Some (fst response))))]"
  by (simp add: step_def updateOutput_resume_def updateOutput_finish_def case_prod_beta
      updateSlices_resume_code)

text \<open>
  C1, as amended. Requests carry no sequence number and a response is not compared
  with anything: whenever a response arrives, for whichever request and after whatever
  history, it is rendered, so the reconstruction shown is that of the response that
  arrived last (or \<open>''# No slice''\<close> if that response has no slice elements or
  no code).
\<close>

theorem response_rendered_on_arrival:
  "rendered (trace (run h c (evs @ [Respond k response]))) =
     Some (orNoSlice (if snd response = [] then None else Some (fst response)))"
  unfolding run_append run.simps step_Respond_trace by (rule rendered_snoc)

lemmas step_defs = step_def updateOutput_start_def updateOutput_resume_def updateTargetDecos_def
  updateSlices_start_def updateSlices_resume_def updateOutput_finish_def clearSliceDecos_def
  ensureSliceDecos_def makeUri_def orNoSlice_def lineHost_def rendered_def
  positionSlicerAuthority_def positionSlicerSuffix_def Let_def

text \<open>
  C1 as stated fails: two requests are sent and the response to the second arrives
  before the response to the first. The reconstruction shown at the end is that of the
  first, older request.
\<close>

theorem stale_response_counterexample:
  "rendered (trace (run (lineHost [(1, 2)] (''x'', []))
      \<lparr>slicer = \<lparr>doc = 7, offsets = [1], sliceDecos = None\<rparr>, issued = 0, trace = []\<rparr>
      [Trigger, Trigger,
       Respond 2 (''new'', [(2, ((0, 1), (0, 2)))]),
       Respond 1 (''old'', [(1, ((0, 1), (0, 2)))])])) = Some ''old''"
  by (simp add: step_defs)

subsection \<open>Sessions\<close>

lemma live_destroy:
  "live (x\<lparr>destroyed := destroyed x @ [i]\<rparr>) = filter (\<lambda>j. j \<noteq> i) (live x)"
  by (simp add: live_def conj_commute)

lemma live_new:
  assumes "\<forall>i \<in> set (destroyed x). i < constructed x"
  shows "live (x\<lparr>constructed := constructed x + 1\<rparr>) = live x @ [constructed x]"
proof -
  have "constructed x \<notin> set (destroyed x)" using assms by auto
  then show ?thesis by (simp add: live_def)
qed

lemma destroySession_inv:
  assumes "session_inv x"
  shows "session_inv (destroySession x)" and "live (destroySession x) = []"
proof -
  have l: "live (destroySession x) = []"
  proof (cases "flowrSession x")
    case None
    then show ?thesis using assms
      by (simp add: destroySession_def destroy_opt_def session_inv_def live_def)
  next
    case (Some sess)
    have "live (destroySession x) = live (x\<lparr>destroyed := destroyed x @ [sid sess]\<rparr>)"
      by (simp add: destroySession_def destroy_opt_def Some live_def)
    also have "\<dots> = filter (\<lambda>j. j \<noteq> sid sess) (live x)" by (rule live_destroy)
    also have "live x = [sid sess]" using assms Some by (simp add: session_inv_def)
    finally show ?thesis by simp
  qed
  show "live (destroySession x) = []" by (rule l)
  have "sid sess < constructed x" if "flowrSession x = Some sess" for sess
  proof -
    have "sid sess \<in> set (live x)" using assms that by (simp add: session_inv_def)
    then show ?thesis by (simp add: live_def)
  qed
  then have "\<forall>i \<in> set (destroyed (destroySession x)). i < constructed (destroySession x)"
    using assms by (auto simp: destroySession_def destroy_opt_def session_inv_def split: option.splits)
  then show "session_inv (destroySession x)"
    using l by (simp add: session_inv_def destroySession_def)
qed

lemma new_Session_inv:
  assumes "session_inv y" and "flowrSession y = None"
  shows "session_inv ((snd (new_Session k y))\<lparr>flowrSession := Some (fst (new_Session k y))\<rparr>)"
    and "live ((snd (new_Session k y))\<lparr>flowrSession := Some (fst (new_Session k y))\<rparr>) = [constructed y]"
proof -
  have d: "\<forall>i \<in> set (destroyed y). i < constructed y" using assms(1) by (simp add: session_inv_def)
  have l0: "live y = []" using assms by (simp add: session_inv_def)
  have "live ((snd (new_Session k y))\<lparr>flowrSession := Some (fst (new_Session k y))\<rparr>) =
      live (y\<lparr>constructed := constructed y + 1\<rparr>)"
    by (simp add: new_Session_def live_def)
  also have "\<dots> = live y @ [constructed y]" using d by (rule live_new)
  finally show l: "live ((snd (new_Session k y))\<lparr>flowrSession := Some (fst (new_Session k y))\<rparr>) =
      [constructed y]" using l0 by simp
  have "\<forall>i \<in> set (destroyed y). i < constructed y + 1" using d by auto
  then show "session_inv ((snd (new_Session k y))\<lparr>flowrSession := Some (fst (new_Session k y))\<rparr>)"
    unfolding session_inv_def l by (simp add: new_Session_def)
qed

lemma establish_eq:
  "establishInternalSession x =
     (snd (new_Session FlowrInternalSession (destroySession x)))
       \<lparr>flowrSession := Some (fst (new_Session FlowrInternalSession (destroySession x)))\<rparr>"
  "establishServerSession x =
     (snd (new_Session FlowrServerSession (destroySession x)))
       \<lparr>flowrSession := Some (fst (new_Session FlowrServerSession (destroySession x)))\<rparr>"
  by (simp_all add: establishInternalSession_def establishServerSession_def case_prod_beta)

lemma establish_ext_eq:
  "establishInternalSession_ext x = establishInternalSession x"
  "establishServerSession_ext x = establishServerSession x"
  by (simp_all add: establishInternalSession_ext_def establishServerSession_ext_def
      establishInternalSession_def establishServerSession_def destroySession_def new_Session_def)

lemma session_inv_initial: "session_inv initial"
  by (simp add: session_inv_def initial_def live_def)

lemma establish_inv:
  assumes "session_inv x"
  shows "session_inv (establishInternalSession x)" and "session_inv (establishServerSession x)"
proof -
  have i: "session_inv (destroySession x)" using assms by (rule destroySession_inv(1))
  have n: "flowrSession (destroySession x) = None" by (simp add: destroySession_def)
  show "session_inv (establishInternalSession x)" "session_inv (establishServerSession x)"
    unfolding establish_eq using i n by (rule new_Session_inv)+
qed

text \<open>
  Whatever sequence of these operations has run since the extension was loaded, the
  live sessions are the one held by \<^verbatim>\<open>flowrSession\<close>, if any.
\<close>

lemma session_inv_reachable: "session_inv (foldl sessionOp initial ops)"
proof (induction ops rule: rev_induct)
  case Nil
  then show ?case by (simp add: session_inv_initial)
next
  case (snoc op ops)
  then show ?case
    by (cases op) (simp_all add: establish_inv destroySession_inv(1))
qed

text \<open>
  C9. In a state where the live sessions are exactly the one held by
  \<^verbatim>\<open>flowrSession\<close>, at most one session is live. Establishing an internal or a
  server session calls \<^verbatim>\<open>destroy()\<close> on the session held, if there is one,
  before it constructs the new one, which is then the only live session; this holds
  for both versions of the two functions. \<^verbatim>\<open>destroySession\<close> calls
  \<^verbatim>\<open>destroy()\<close> only on a session that is present and clears the variable; it
  changes nothing when no session exists, and calling it twice is the same as calling
  it once.
\<close>

theorem session_single:
  assumes "session_inv x"
  shows "length (live x) \<le> 1 \<and>
    session_inv (establishInternalSession x) \<and>
    live (establishInternalSession x) = [constructed x] \<and>
    flowrSession (establishInternalSession x) = Some \<lparr>kind = FlowrInternalSession, sid = constructed x\<rparr> \<and>
    session_inv (establishServerSession x) \<and>
    live (establishServerSession x) = [constructed x] \<and>
    flowrSession (establishServerSession x) = Some \<lparr>kind = FlowrServerSession, sid = constructed x\<rparr> \<and>
    establishInternalSession_ext x = establishInternalSession x \<and>
    establishServerSession_ext x = establishServerSession x \<and>
    destroyed (establishInternalSession x) = destroyed (destroySession x) \<and>
    destroyed (establishServerSession x) = destroyed (destroySession x) \<and>
    session_inv (destroySession x) \<and>
    live (destroySession x) = [] \<and>
    flowrSession (destroySession x) = None \<and>
    destroyed (destroySession x) =
      destroyed x @ (case flowrSession x of None \<Rightarrow> [] | Some sess \<Rightarrow> [sid sess]) \<and>
    destroySession (destroySession x) = destroySession x \<and>
    (flowrSession x = None \<longrightarrow> destroySession x = x)"
proof -
  have i: "session_inv (destroySession x)" using assms by (rule destroySession_inv(1))
  have n: "flowrSession (destroySession x) = None" by (simp add: destroySession_def)
  have c: "constructed (destroySession x) = constructed x"
    by (simp add: destroySession_def destroy_opt_def split: option.split)
  have 1: "length (live x) \<le> 1" using assms by (simp add: session_inv_def split: option.split)
  have 2: "session_inv (establishInternalSession x)" "session_inv (establishServerSession x)"
    unfolding establish_eq using i n by (rule new_Session_inv)+
  have 3: "live (establishInternalSession x) = [constructed x]"
    "live (establishServerSession x) = [constructed x]"
    unfolding establish_eq using new_Session_inv(2) [OF i n] c by simp_all
  have 4: "flowrSession (establishInternalSession x) = Some \<lparr>kind = FlowrInternalSession, sid = constructed x\<rparr>"
    "flowrSession (establishServerSession x) = Some \<lparr>kind = FlowrServerSession, sid = constructed x\<rparr>"
    unfolding establish_eq by (simp_all add: new_Session_def c)
  have 5: "destroyed (establishInternalSession x) = destroyed (destroySession x)"
    "destroyed (establishServerSession x) = destroyed (destroySession x)"
    unfolding establish_eq by (simp_all add: new_Session_def)
  have 6: "destroyed (destroySession x) =
      destroyed x @ (case flowrSession x of None \<Rightarrow> [] | Some sess \<Rightarrow> [sid sess])"
    by (simp add: destroySession_def destroy_opt_def split: option.split)
  have 7: "destroySession (destroySession x) = destroySession x"
    by (simp add: destroySession_def destroy_opt_def split: option.split)
  have 8: "flowrSession x = None \<longrightarrow> destroySession x = x"
    by (simp add: destroySession_def destroy_opt_def)
  show ?thesis
    using 1 2 3 4 5 6 7 8 i n destroySession_inv(2) [OF assms] establish_ext_eq by simp
qed

theorem session_single_witness:
  "session_inv initial \<and>
   live (establishServerSession initial) = [0] \<and>
   session_inv (establishServerSession initial) \<and>
   live (establishInternalSession (establishServerSession initial)) = [1] \<and>
   destroyed (establishInternalSession (establishServerSession initial)) = [0] \<and>
   live (destroySession (establishServerSession initial)) = [] \<and>
   destroySession initial = initial"
proof -
  have a: "session_inv initial" by (rule session_inv_initial)
  note t1 = session_single [OF a]
  have b: "session_inv (establishServerSession initial)" using t1 by simp
  note t2 = session_single [OF b]
  have i: "constructed initial = 0" "destroyed initial = []" "flowrSession initial = None"
    by (simp_all add: initial_def)
  have c: "constructed (establishServerSession initial) = 1"
    by (simp add: establishServerSession_def destroySession_def destroy_opt_def new_Session_def
        initial_def)
  have d: "destroySession initial = initial" using t1 i(3) by simp
  have e: "destroyed (establishServerSession initial) = []" using t1 d i(2) by simp
  show ?thesis using a t1 t2 c d e i by simp
qed

end
